theory Spec2Isabelle
  imports Complex_Main "HOL-Library.Log_Nat"
begin

section \<open>Strings\<close>

text \<open>
  A JavaScript string is a sequence of UTF-16 code units. The model uses \<open>string\<close> and
  reads each \<open>char\<close> as the code unit of the same number, so it holds the strings whose
  code units are below 256. A code unit from 256 on is either white space that
  \<^verbatim>\<open>trim\<close> removes at the ends, or a character that \<^verbatim>\<open>isValidHexChar\<close> rejects.
\<close>

definition isWhiteSpace :: "char \<Rightarrow> bool" where
  \<comment> \<open>White space and line terminators of ECMAScript below 256: TAB, LF, VT, FF, CR, SP, NBSP.\<close>
  "isWhiteSpace c = (of_char c \<in> set [9, 10, 11, 12, 13, 32, 160 :: nat])"

definition trim :: "string \<Rightarrow> string" where
  \<comment> \<open>\<^verbatim>\<open>String.prototype.trim\<close>: white space removed from both ends.\<close>
  "trim s = rev (dropWhile isWhiteSpace (rev (dropWhile isWhiteSpace s)))"

definition toUpperChar :: "char \<Rightarrow> char" where
  "toUpperChar c =
     (case map_of (zip ''abcdefghijklmnopqrstuvwxyz'' ''ABCDEFGHIJKLMNOPQRSTUVWXYZ'') c of
        None \<Rightarrow> c
      | Some u \<Rightarrow> u)"

definition toUpperCase :: "string \<Rightarrow> string" where
  \<comment> \<open>\<^verbatim>\<open>String.prototype.toUpperCase\<close> on ASCII text, which is all that \<^verbatim>\<open>rgbToHex\<close> produces.\<close>
  "toUpperCase s = map toUpperChar s"

fun decimal :: "nat \<Rightarrow> string" where
  \<comment> \<open>The decimal text of a non-negative integer, as string conversion of a number gives it.\<close>
  "decimal n = (if n < 10 then [''0123456789'' ! n] else decimal (n div 10) @ [''0123456789'' ! (n mod 10)])"

declare decimal.simps [simp del]

section \<open>Core utility functions\<close>

definition isValidHexChar :: "string \<Rightarrow> bool" where
  \<comment> \<open>\<^verbatim>\<open>/^[#a-fA-F0-9]*$/.test(str)\<close>: every character of the string is in the class.\<close>
  "isValidHexChar str = list_all (\<lambda>c. c \<in> set ''#abcdefABCDEF0123456789'') str"

definition isHexDigit :: "char \<Rightarrow> bool" where
  \<comment> \<open>The class \<^verbatim>\<open>[a-f\d]\<close> under the flag \<^verbatim>\<open>i\<close>.\<close>
  "isHexDigit c = (c \<in> set ''abcdefABCDEF0123456789'')"

definition optHash :: "string \<Rightarrow> string" where
  \<comment> \<open>The prefix \<^verbatim>\<open>^#?\<close> of both patterns: what is left for the rest of the pattern. The
    character \<^verbatim>\<open>#\<close> is not in the class that follows, so a leading \<^verbatim>\<open>#\<close> is always taken.\<close>
  "optHash s = (case s of [] \<Rightarrow> [] | c # t \<Rightarrow> if c = CHR ''#'' then t else s)"

definition shorthandRegex :: "string \<Rightarrow> (char \<times> char \<times> char) option" where
  \<comment> \<open>\<^verbatim>\<open>/^#?([a-f\d])([a-f\d])([a-f\d])$/i\<close>: the three groups of a match.\<close>
  "shorthandRegex s = (let t = optHash s in
     if length t = 3 \<and> list_all isHexDigit t then Some (t ! 0, t ! 1, t ! 2) else None)"

definition fullRegex :: "string \<Rightarrow> (string \<times> string \<times> string) option" where
  \<comment> \<open>\<^verbatim>\<open>/^#?([a-f\d]{2})([a-f\d]{2})([a-f\d]{2})$/i.exec\<close>: the three groups of a match.\<close>
  "fullRegex s = (let t = optHash s in
     if length t = 6 \<and> list_all isHexDigit t
     then Some (take 2 t, take 2 (drop 2 t), drop 4 t) else None)"

definition hexDigitVal :: "char \<Rightarrow> nat" where
  "hexDigitVal c = (let n = of_char c :: nat in
     if 48 \<le> n \<and> n \<le> 57 then n - 48
     else if 97 \<le> n \<and> n \<le> 102 then n - 87
     else n - 55)"

definition parseInt16 :: "string \<Rightarrow> nat" where
  \<comment> \<open>\<^verbatim>\<open>parseInt(s, 16)\<close> on a string of hexadecimal digits, which is what the groups of
    the pattern are.\<close>
  "parseInt16 s = foldl (\<lambda>a c. 16 * a + hexDigitVal c) 0 s"

record rgb =
  rgb_r :: nat
  rgb_g :: nat
  rgb_b :: nat

definition hexToRgb :: "string \<Rightarrow> rgb option" where
  \<comment> \<open>\<open>None\<close> is the \<^verbatim>\<open>null\<close> of the source.\<close>
  "hexToRgb hex0 = (let
       hex = (case shorthandRegex hex0 of
                None \<Rightarrow> hex0
              | Some (r, g, b) \<Rightarrow> [r, r, g, g, b, b])
     in case fullRegex hex of
          None \<Rightarrow> None
        | Some (g1, g2, g3) \<Rightarrow>
            Some \<lparr>rgb_r = parseInt16 g1, rgb_g = parseInt16 g2, rgb_b = parseInt16 g3\<rparr>)"

definition hexDigitChar :: "nat \<Rightarrow> char" where
  "hexDigitChar d = ''0123456789abcdef'' ! d"

fun toString16 :: "nat \<Rightarrow> string" where
  \<comment> \<open>\<^verbatim>\<open>Number(c).toString(16)\<close> for a non-negative integer.\<close>
  "toString16 n = (if n < 16 then [hexDigitChar n]
     else toString16 (n div 16) @ [hexDigitChar (n mod 16)])"

declare toString16.simps [simp del]

definition toHex :: "nat \<Rightarrow> string" where
  "toHex c = (let hex = toString16 c in if length hex = 1 then CHR ''0'' # hex else hex)"

definition rgbToHex :: "nat \<Rightarrow> nat \<Rightarrow> nat \<Rightarrow> string" where
  "rgbToHex r g b = CHR ''#'' # toHex r @ toHex g @ toHex b"

section \<open>Numbers\<close>

text \<open>
  A JavaScript number is an IEEE 754 double. The model takes a finite double as the
  rational number it denotes and every arithmetic operation as the exact operation
  followed by rounding to the nearest number with a significand of 53 bits, ties to the
  even significand. The range of the exponent is not modelled: the numbers of this
  program are zero or lie between \<open>2 ^ -4\<close> and \<open>2 ^ 8\<close>.
\<close>

definition expo :: "rat \<Rightarrow> int" where
  \<comment> \<open>The binary exponent of a positive number: \<open>2 powi expo x \<le> x < 2 powi (expo x + 1)\<close>.\<close>
  "expo x = (if 1 \<le> x then bitlen \<lfloor>x\<rfloor> - 1 else - bitlen (\<lceil>1 / x\<rceil> - 1))"

definition roundEven :: "rat \<Rightarrow> int" where
  "roundEven x = (let f = \<lfloor>x\<rfloor>; d = x - of_int f in
     if d < 1 / 2 then f else if 1 / 2 < d then f + 1 else if even f then f else f + 1)"

definition toDouble :: "rat \<Rightarrow> rat" where
  "toDouble x = (if x = 0 then 0 else
     let u = 2 powi (expo \<bar>x\<bar> - 52) in sgn x * of_int (roundEven (\<bar>x\<bar> / u)) * u)"

definition dmul :: "rat \<Rightarrow> rat \<Rightarrow> rat" where
  "dmul x y = toDouble (x * y)"

definition dadd :: "rat \<Rightarrow> rat \<Rightarrow> rat" where
  "dadd x y = toDouble (x + y)"

definition luminance :: "nat \<Rightarrow> nat \<Rightarrow> nat \<Rightarrow> rat" where
  \<comment> \<open>\<^verbatim>\<open>r * 0.2126 + g * 0.7152 + b * 0.0722\<close>, the literals being doubles as well.\<close>
  "luminance r g b =
     dadd (dadd (dmul (of_nat r) (toDouble (2126 / 10000)))
                (dmul (of_nat g) (toDouble (7152 / 10000))))
          (dmul (of_nat b) (toDouble (722 / 10000)))"

definition boundaryTriples :: "(nat \<times> nat \<times> nat) list" where
  \<comment> \<open>The channels in [0,255] for which \<open>0.2126 r + 0.7152 g + 0.0722 b\<close> is 140 in exact
    arithmetic.\<close>
  "boundaryTriples =
     [(10, 174, 186), (24, 187, 16), (27, 164, 235), (41, 177, 65), (58, 167, 114),
      (75, 157, 163), (92, 147, 212), (106, 160, 42), (123, 150, 91), (140, 140, 140),
      (157, 130, 189), (171, 143, 19), (174, 120, 238), (188, 133, 68), (205, 123, 117),
      (222, 113, 166), (239, 103, 215), (253, 116, 45)]"

definition randomValue :: "rat \<Rightarrow> nat" where
  \<comment> \<open>\<^verbatim>\<open>Math.floor(Math.random() * 256)\<close>, the argument being what \<^verbatim>\<open>Math.random()\<close>
    returned. The product with \<open>256 = 2 ^ 8\<close> is exact in binary floating point.\<close>
  "randomValue u = nat \<lfloor>u * 256\<rfloor>"

section \<open>The page\<close>

text \<open>
  The state is what the script reads and writes in the document: the values of the
  elements of class \<^verbatim>\<open>range\<close> (sliders with the range 0 to 255 and an integer step, so a
  value is a natural number and \<^verbatim>\<open>parseInt\<close> gives it back), the texts of the elements of
  class \<^verbatim>\<open>range-value\<close>, the value of the hex field and whether its class list holds
  \<^verbatim>\<open>error\<close>, the background colour of the body and the colour of the title.
\<close>

record page =
  ranges :: "nat list"
  rangeValues :: "string list"
  hexValue :: string
  hexError :: bool
  backgroundColor :: string
  titleColor :: string

definition updateColors :: "page \<Rightarrow> page" where
  "updateColors st = (let
       r = ranges st ! 0;
       g = ranges st ! 1;
       b = ranges st ! 2;
       rgb = ''rgb('' @ decimal r @ '', '' @ decimal g @ '', '' @ decimal b @ '')'';
       hex = rgbToHex r g b;
       lum = luminance r g b
     in st\<lparr>backgroundColor := rgb,
           hexValue := toUpperCase hex,
           titleColor := (if 140 < lum then ''#333'' else ''#FFF'')\<rparr>)"

definition sliderInput :: "nat \<Rightarrow> page \<Rightarrow> page" where
  \<comment> \<open>The listener of the \<open>i\<close>-th slider for \<^verbatim>\<open>input\<close>.\<close>
  "sliderInput i st =
     updateColors (st\<lparr>rangeValues := (rangeValues st)[i := decimal (ranges st ! i)],
                      hexError := False\<rparr>)"

definition userSlide :: "nat \<Rightarrow> nat \<Rightarrow> page \<Rightarrow> page" where
  \<comment> \<open>The user moves the \<open>i\<close>-th slider to \<open>v\<close>: the browser stores the value, then calls
    the listener.\<close>
  "userSlide i v st = sliderInput i (st\<lparr>ranges := (ranges st)[i := v]\<rparr>)"

definition randomClick :: "nat \<Rightarrow> rat \<Rightarrow> page \<Rightarrow> page" where
  \<comment> \<open>The listener of the \<open>i\<close>-th random button; \<open>u\<close> is what \<^verbatim>\<open>Math.random()\<close> returns.\<close>
  "randomClick i u st = (let v = randomValue u in
     updateColors (st\<lparr>ranges := (ranges st)[i := v],
                      rangeValues := (rangeValues st)[i := decimal v],
                      hexError := False\<rparr>))"

definition randomAllClick :: "(nat \<Rightarrow> rat) \<Rightarrow> page \<Rightarrow> page" where
  \<comment> \<open>The listener of the random-all button; \<open>rnd i\<close> is what \<^verbatim>\<open>Math.random()\<close> returns
    for the \<open>i\<close>-th slider.\<close>
  "randomAllClick rnd st =
     updateColors
       ((fold (\<lambda>i s. let v = randomValue (rnd i) in
                 s\<lparr>ranges := (ranges s)[i := v],
                   rangeValues := (rangeValues s)[i := decimal v]\<rparr>)
              [0..<length (ranges st)] st)
        \<lparr>hexError := False\<rparr>)"

definition copyClick :: "page \<Rightarrow> string" where
  \<comment> \<open>The listener of the copy button: the text it hands to
    \<^verbatim>\<open>navigator.clipboard.writeText\<close>.\<close>
  "copyClick st = hexValue st"

definition hexInput :: "page \<Rightarrow> page" where
  \<comment> \<open>The listener of the hex field for \<^verbatim>\<open>input\<close>.\<close>
  "hexInput st = (let hex = trim (hexValue st) in
     if \<not> isValidHexChar hex then st\<lparr>hexError := True\<rparr>
     else case hexToRgb hex of
       Some c \<Rightarrow>
         updateColors
           (st\<lparr>hexError := False,
               ranges := (ranges st)[0 := rgb_r c, 1 := rgb_g c, 2 := rgb_b c],
               rangeValues := (rangeValues st)
                 [0 := decimal (rgb_r c), 1 := decimal (rgb_g c), 2 := decimal (rgb_b c)]\<rparr>)
     | None \<Rightarrow>
         if 7 < length hex then st\<lparr>hexError := True\<rparr>
         else if 2 \<le> length hex \<and> length hex < 7 then st\<lparr>hexError := False\<rparr>
         else if length hex = 7 then st\<lparr>hexError := True\<rparr>
         else st\<lparr>hexError := False\<rparr>)"

definition userType :: "string \<Rightarrow> page \<Rightarrow> page" where
  \<comment> \<open>The user edits the hex field to hold \<open>txt\<close>: the browser stores the text, then calls
    the listener.\<close>
  "userType txt st = hexInput (st\<lparr>hexValue := txt\<rparr>)"

definition pageShape :: "page \<Rightarrow> bool" where
  \<comment> \<open>The document has three sliders and three readouts.\<close>
  "pageShape st = (length (ranges st) = 3 \<and> length (rangeValues st) = 3)"

definition inRange :: "page \<Rightarrow> bool" where
  "inRange st = list_all (\<lambda>v. v \<le> 255) (ranges st)"

definition accepted :: "string \<Rightarrow> bool" where
  \<comment> \<open>The text takes the listener of the hex field to its branch of success.\<close>
  "accepted txt = (isValidHexChar (trim txt) \<and> hexToRgb (trim txt) \<noteq> None)"

text \<open>
  The states the page can be in, each with whether it is settled (the hex field holds
  what the script wrote) or in the middle of an edit (the hex field holds what the user
  typed). The script runs \<open>updateColors\<close> once when the page is loaded.
\<close>

inductive reachable :: "bool \<Rightarrow> page \<Rightarrow> bool" where
  load: "pageShape st \<Longrightarrow> inRange st \<Longrightarrow> reachable True (updateColors st)"
| slide: "reachable s st \<Longrightarrow> i < 3 \<Longrightarrow> v \<le> 255 \<Longrightarrow> reachable True (userSlide i v st)"
| random: "reachable s st \<Longrightarrow> i < 3 \<Longrightarrow> 0 \<le> u \<Longrightarrow> u < 1
    \<Longrightarrow> reachable True (randomClick i u st)"
| randomAll: "reachable s st \<Longrightarrow> (\<And>i. 0 \<le> rnd i \<and> rnd i < 1)
    \<Longrightarrow> reachable True (randomAllClick rnd st)"
| type: "reachable s st \<Longrightarrow> reachable (accepted txt) (userType txt st)"

section \<open>The words of the specification\<close>

definition upperHexDigit :: "nat \<Rightarrow> char" where
  "upperHexDigit d = ''0123456789ABCDEF'' ! d"

definition canonicalHex :: "nat \<Rightarrow> nat \<Rightarrow> nat \<Rightarrow> string" where
  \<comment> \<open>The canonical uppercase 6-digit encoding of the channels, with its leading \<open>#\<close>.\<close>
  "canonicalHex r g b = CHR ''#'' #
     [upperHexDigit (r div 16), upperHexDigit (r mod 16),
      upperHexDigit (g div 16), upperHexDigit (g mod 16),
      upperHexDigit (b div 16), upperHexDigit (b mod 16)]"

definition canonicalState :: "page \<Rightarrow> bool" where
  \<comment> \<open>All channels are in [0,255] and the hex field holds their canonical encoding.\<close>
  "canonicalState st = (inRange st
     \<and> hexValue st = canonicalHex (ranges st ! 0) (ranges st ! 1) (ranges st ! 2))"

definition hexDigits :: "string \<Rightarrow> string" where
  \<comment> \<open>The text without its optional leading \<open>#\<close>.\<close>
  "hexDigits s = (if s \<noteq> [] \<and> hd s = CHR ''#'' then tl s else s)"

definition isHexCode :: "string \<Rightarrow> bool" where
  \<comment> \<open>A 3-digit or 6-digit hex code with an optional leading \<open>#\<close>; a hex digit is one of
    \<open>0-9\<close>, \<open>a-f\<close>, \<open>A-F\<close>.\<close>
  "isHexCode s = ((length (hexDigits s) = 3 \<or> length (hexDigits s) = 6)
     \<and> list_all isHexDigit (hexDigits s))"

definition decodeHex :: "string \<Rightarrow> nat list" where
  \<comment> \<open>The channels a hex code stands for; a digit of the shorthand counts twice.\<close>
  "decodeHex s = (let t = hexDigits s in
     if length t = 3 then map (\<lambda>c. 16 * hexDigitVal c + hexDigitVal c) t
     else [16 * hexDigitVal (t ! 0) + hexDigitVal (t ! 1),
           16 * hexDigitVal (t ! 2) + hexDigitVal (t ! 3),
           16 * hexDigitVal (t ! 4) + hexDigitVal (t ! 5)])"

definition examplePage :: page where
  \<comment> \<open>A page showing the colour (18, 52, 86).\<close>
  "examplePage = \<lparr>ranges = [18, 52, 86], rangeValues = [''18'', ''52'', ''86''],
     hexValue = ''#123456'', hexError = False,
     backgroundColor = ''rgb(18, 52, 86)'', titleColor = ''#FFF''\<rparr>"

section \<open>Conversion between channels and hex codes\<close>

lemma digit_cases:
  assumes "(d::nat) < 16"
  shows "d = 0 \<or> d = 1 \<or> d = 2 \<or> d = 3 \<or> d = 4 \<or> d = 5 \<or> d = 6 \<or> d = 7
    \<or> d = 8 \<or> d = 9 \<or> d = 10 \<or> d = 11 \<or> d = 12 \<or> d = 13 \<or> d = 14 \<or> d = 15"
  using assms by arith

lemma hexDigitVal_hexDigitChar:
  assumes "d < 16"
  shows "hexDigitVal (hexDigitChar d) = d"
  using digit_cases [OF assms]
  by (elim disjE) (simp_all add: hexDigitVal_def hexDigitChar_def)

lemma isHexDigit_hexDigitChar:
  assumes "d < 16"
  shows "isHexDigit (hexDigitChar d)"
  using digit_cases [OF assms]
  by (elim disjE) (simp_all add: isHexDigit_def hexDigitChar_def)

lemma hexDigitChar_not_hash:
  assumes "d < 16"
  shows "hexDigitChar d \<noteq> CHR ''#''"
  using digit_cases [OF assms]
  by (elim disjE) (simp_all add: hexDigitChar_def)

lemma toHex_byte:
  assumes "c \<le> 255"
  shows "toHex c = [hexDigitChar (c div 16), hexDigitChar (c mod 16)]"
proof (cases "c < 16")
  case True
  then show ?thesis
    by (simp add: toHex_def toString16.simps [of c] hexDigitChar_def)
next
  case False
  with assms have "c div 16 < 16" by simp
  with False show ?thesis
    by (simp add: toHex_def toString16.simps [of c] toString16.simps [of "c div 16"])
qed

lemma parseInt16_pair: "parseInt16 [x, y] = 16 * hexDigitVal x + hexDigitVal y"
  by (simp add: parseInt16_def)

lemma parseInt16_toHex:
  assumes "c \<le> 255"
  shows "parseInt16 (toHex c) = c"
proof -
  from assms have "c div 16 < 16" by simp
  moreover have "c mod 16 < 16" by simp
  ultimately show ?thesis
    by (simp add: toHex_byte [OF assms] parseInt16_pair hexDigitVal_hexDigitChar)
qed

lemma toHex_digits:
  assumes "c \<le> 255"
  shows "length (toHex c) = 2 \<and> list_all isHexDigit (toHex c)"
proof -
  from assms have "c div 16 < 16" by simp
  moreover have "c mod 16 < 16" by simp
  ultimately show ?thesis
    by (simp add: toHex_byte [OF assms] isHexDigit_hexDigitChar)
qed

lemma optHash_rgbToHex: "optHash (rgbToHex r g b) = toHex r @ toHex g @ toHex b"
  by (simp add: optHash_def rgbToHex_def)

lemma shorthandRegex_rgbToHex:
  assumes "r \<le> 255" "g \<le> 255" "b \<le> 255"
  shows "shorthandRegex (rgbToHex r g b) = None"
  using toHex_digits [OF assms(1)] toHex_digits [OF assms(2)] toHex_digits [OF assms(3)]
  by (simp add: shorthandRegex_def optHash_rgbToHex)

lemma fullRegex_rgbToHex:
  assumes "r \<le> 255" "g \<le> 255" "b \<le> 255"
  shows "fullRegex (rgbToHex r g b) = Some (toHex r, toHex g, toHex b)"
  using toHex_digits [OF assms(1)] toHex_digits [OF assms(2)] toHex_digits [OF assms(3)]
  by (simp add: fullRegex_def optHash_rgbToHex)

text \<open>
  C1. For all integers \<open>r\<close>, \<open>g\<close>, \<open>b\<close> in [0,255], decoding the encoding gives the channels
  back: \<open>hexToRgb (rgbToHex r g b)\<close> is the object with exactly these \<open>r\<close>, \<open>g\<close>, \<open>b\<close>.
\<close>

theorem hexToRgb_rgbToHex:
  assumes "r \<le> 255" and "g \<le> 255" and "b \<le> 255"
  shows "hexToRgb (rgbToHex r g b) = Some \<lparr>rgb_r = r, rgb_g = g, rgb_b = b\<rparr>"
  by (simp add: hexToRgb_def shorthandRegex_rgbToHex [OF assms] fullRegex_rgbToHex [OF assms]
      parseInt16_toHex assms)

theorem hexToRgb_rgbToHex_witness:
  "(18::nat) \<le> 255 \<and> (0::nat) \<le> 255 \<and> (171::nat) \<le> 255
   \<and> rgbToHex 18 0 171 = ''#1200ab''
   \<and> hexToRgb ''#1200ab'' = Some \<lparr>rgb_r = 18, rgb_g = 0, rgb_b = 171\<rparr>"
proof -
  have enc: "rgbToHex 18 0 171 = ''#1200ab''"
    by (simp add: rgbToHex_def toHex_def toString16.simps hexDigitChar_def)
  have "hexToRgb (rgbToHex 18 0 171) = Some \<lparr>rgb_r = 18, rgb_g = 0, rgb_b = 171\<rparr>"
    by (rule hexToRgb_rgbToHex) simp_all
  with enc show ?thesis by simp
qed

text \<open>
  C9. For all integers \<open>r\<close>, \<open>g\<close>, \<open>b\<close> in [0,255], \<open>rgbToHex r g b\<close> is a leading \<open>#\<close>
  followed by exactly six hexadecimal characters: each channel is rendered as exactly
  two hexadecimal digits, padded with a zero.
\<close>

theorem rgbToHex_shape:
  assumes "r \<le> 255" and "g \<le> 255" and "b \<le> 255"
  shows "rgbToHex r g b = CHR ''#'' # toHex r @ toHex g @ toHex b
    \<and> length (toHex r) = 2 \<and> length (toHex g) = 2 \<and> length (toHex b) = 2
    \<and> length (rgbToHex r g b) = 7
    \<and> list_all isHexDigit (tl (rgbToHex r g b))"
  using toHex_digits [OF assms(1)] toHex_digits [OF assms(2)] toHex_digits [OF assms(3)]
  by (simp add: rgbToHex_def)

theorem rgbToHex_shape_witness:
  "(5::nat) \<le> 255 \<and> (0::nat) \<le> 255 \<and> (255::nat) \<le> 255
   \<and> rgbToHex 5 0 255 = ''#0500ff''
   \<and> toHex 5 = ''05'' \<and> toHex 0 = ''00'' \<and> toHex 255 = ''ff''
   \<and> length (rgbToHex 5 0 255) = 7
   \<and> list_all isHexDigit (tl (rgbToHex 5 0 255))"
proof -
  have h: "(5::nat) \<le> 255" "(0::nat) \<le> 255" "(255::nat) \<le> 255" by simp_all
  have enc: "toHex 5 = ''05''" "toHex 0 = ''00''" "toHex 255 = ''ff''"
    by (simp_all add: toHex_def toString16.simps hexDigitChar_def)
  from rgbToHex_shape [OF h] enc show ?thesis by (simp add: isHexDigit_def)
qed

section \<open>The listeners\<close>

lemma updateColors_ranges [simp]: "ranges (updateColors st) = ranges st"
  by (simp add: updateColors_def Let_def)

lemma updateColors_rangeValues [simp]: "rangeValues (updateColors st) = rangeValues st"
  by (simp add: updateColors_def Let_def)

lemma updateColors_hexError [simp]: "hexError (updateColors st) = hexError st"
  by (simp add: updateColors_def Let_def)

lemma updateColors_hexValue:
  "hexValue (updateColors st) = toUpperCase (rgbToHex (ranges st ! 0) (ranges st ! 1) (ranges st ! 2))"
  by (simp add: updateColors_def Let_def)

lemma randomAll_fold_hexError:
  "hexError (fold (\<lambda>i s. let v = randomValue (rnd i) in
                 s\<lparr>ranges := (ranges s)[i := v],
                   rangeValues := (rangeValues s)[i := decimal v]\<rparr>) is st) = hexError st"
  by (induction "is" arbitrary: st) (simp_all add: Let_def)

text \<open>
  C10. Every slider input event and every randomize operation (of one channel or of all)
  removes the error state of the hex field, whatever the field held before.
\<close>

theorem error_cleared:
  "\<not> hexError (sliderInput i st) \<and> \<not> hexError (userSlide i v st)
   \<and> \<not> hexError (randomClick i u st) \<and> \<not> hexError (randomAllClick rnd st)"
  by (simp add: sliderInput_def userSlide_def randomClick_def randomAllClick_def Let_def)

section \<open>The listener of the hex field\<close>

lemma optHash_hexDigits: "optHash s = hexDigits s"
  by (cases s) (simp_all add: optHash_def hexDigits_def)

lemma isHexDigit_not_hash: "isHexDigit c \<Longrightarrow> c \<noteq> CHR ''#''"
  by (auto simp: isHexDigit_def)

lemma length3: "length t = 3 \<Longrightarrow> t = [t ! 0, t ! 1, t ! 2]"
  by (cases t; cases "tl t"; cases "tl (tl t)") auto

lemma length6: "length t = 6 \<Longrightarrow> t = [t ! 0, t ! 1, t ! 2, t ! 3, t ! 4, t ! 5]"
  by (auto simp: list_eq_iff_nth_eq less_Suc_eq numeral_eq_Suc nth_Cons')

lemma hexToRgb_short:
  assumes "length (hexDigits h) = 3" "list_all isHexDigit (hexDigits h)"
  shows "hexToRgb h = Some \<lparr>rgb_r = decodeHex h ! 0, rgb_g = decodeHex h ! 1, rgb_b = decodeHex h ! 2\<rparr>"
proof -
  obtain x y z where t: "hexDigits h = [x, y, z]"
    using length3 [OF assms(1)] by blast
  with assms(2) have d: "isHexDigit x" "isHexDigit y" "isHexDigit z" by simp_all
  have s: "shorthandRegex h = Some (x, y, z)"
    using d by (simp add: shorthandRegex_def optHash_hexDigits t)
  have "optHash [x, x, y, y, z, z] = [x, x, y, y, z, z]"
    using isHexDigit_not_hash [OF d(1)] by (simp add: optHash_def)
  then have f: "fullRegex [x, x, y, y, z, z] = Some ([x, x], [y, y], [z, z])"
    using d by (simp add: fullRegex_def)
  show ?thesis
    by (simp add: hexToRgb_def s f parseInt16_pair decodeHex_def t)
qed

lemma hexToRgb_full:
  assumes "length (hexDigits h) = 6" "list_all isHexDigit (hexDigits h)"
  shows "hexToRgb h = Some \<lparr>rgb_r = decodeHex h ! 0, rgb_g = decodeHex h ! 1, rgb_b = decodeHex h ! 2\<rparr>"
proof -
  obtain a b c d e f where t: "hexDigits h = [a, b, c, d, e, f]"
    using length6 [OF assms(1)] by blast
  have s: "shorthandRegex h = None"
    by (simp add: shorthandRegex_def optHash_hexDigits t)
  have f: "fullRegex h = Some ([a, b], [c, d], [e, f])"
    using assms(2) by (simp add: fullRegex_def optHash_hexDigits t)
  show ?thesis
    by (simp add: hexToRgb_def s f parseInt16_pair decodeHex_def t)
qed

lemma validChar_iff: "(c \<in> set ''#abcdefABCDEF0123456789'') = (c = CHR ''#'' \<or> isHexDigit c)"
  unfolding isHexDigit_def by (simp only: set_simps insert_iff)

lemma isHexCode_iff:
  "isHexCode h \<longleftrightarrow> (length (hexDigits h) = 3 \<or> length (hexDigits h) = 6) \<and> list_all isHexDigit (hexDigits h)"
  by (simp only: isHexCode_def)

lemma isValidHexChar_iff: "isValidHexChar s = list_all (\<lambda>c. c = CHR ''#'' \<or> isHexDigit c) s"
  by (simp only: isValidHexChar_def validChar_iff)

lemma hexToRgb_None:
  assumes "\<not> isHexCode h"
  shows "hexToRgb h = None"
proof -
  from assms have n3: "\<not> (length (hexDigits h) = 3 \<and> list_all isHexDigit (hexDigits h))"
    and n6: "\<not> (length (hexDigits h) = 6 \<and> list_all isHexDigit (hexDigits h))"
    by (auto simp: isHexCode_iff)
  from n3 have s: "shorthandRegex h = None"
    by (simp add: shorthandRegex_def optHash_hexDigits Let_def)
  from n6 have f: "fullRegex h = None"
    by (simp add: fullRegex_def optHash_hexDigits Let_def)
  show ?thesis by (simp add: hexToRgb_def s f)
qed

lemma hexToRgb_isHexCode:
  assumes "isHexCode h"
  shows "hexToRgb h = Some \<lparr>rgb_r = decodeHex h ! 0, rgb_g = decodeHex h ! 1, rgb_b = decodeHex h ! 2\<rparr>"
  using assms hexToRgb_short [of h] hexToRgb_full [of h] by (auto simp: isHexCode_iff)

lemma set_hexDigits: "set h \<subseteq> insert (CHR ''#'') (set (hexDigits h))"
  by (cases h) (auto simp: hexDigits_def)

lemma isHexCode_valid:
  assumes "isHexCode h"
  shows "isValidHexChar h"
proof -
  from assms have "\<forall>c \<in> set (hexDigits h). isHexDigit c"
    by (simp add: isHexCode_iff list_all_iff)
  with set_hexDigits [of h] have "\<forall>c \<in> set h. c = CHR ''#'' \<or> isHexDigit c"
    by blast
  then show ?thesis
    by (simp add: isValidHexChar_iff list_all_iff)
qed


lemma decodeHex_length:
  assumes "isHexCode h"
  shows "length (decodeHex h) = 3"
  using assms by (auto simp: isHexCode_def decodeHex_def Let_def)

lemma list_update3:
  assumes "length xs = 3" "length d = 3"
  shows "xs[0 := d ! 0, Suc 0 := d ! Suc 0, 2 := d ! 2] = d"
proof -
  obtain a b c where "xs = [a, b, c]" using length3 [OF assms(1)] by blast
  moreover obtain x y z where "d = [x, y, z]" using length3 [OF assms(2)] by blast
  ultimately show ?thesis by simp
qed

lemma hexInput_accept:
  assumes "isHexCode (trim (hexValue st))"
  shows "hexInput st = updateColors
           (st\<lparr>hexError := False,
               ranges := (ranges st)
                 [0 := decodeHex (trim (hexValue st)) ! 0,
                  1 := decodeHex (trim (hexValue st)) ! 1,
                  2 := decodeHex (trim (hexValue st)) ! 2],
               rangeValues := (rangeValues st)
                 [0 := decimal (decodeHex (trim (hexValue st)) ! 0),
                  1 := decimal (decodeHex (trim (hexValue st)) ! 1),
                  2 := decimal (decodeHex (trim (hexValue st)) ! 2)]\<rparr>)"
  by (simp add: hexInput_def Let_def isHexCode_valid [OF assms] hexToRgb_isHexCode [OF assms])

lemma hexInput_reject:
  assumes "\<not> isHexCode (trim (hexValue st))"
  shows "hexInput st = st\<lparr>hexError :=
           \<not> isValidHexChar (trim (hexValue st)) \<or> 7 \<le> length (trim (hexValue st))\<rparr>"
  by (auto simp add: hexInput_def Let_def hexToRgb_None [OF assms])

lemma isHexCode_length: "isHexCode h \<Longrightarrow> length h \<le> 7"
  by (cases h) (auto simp: isHexCode_def hexDigits_def split: if_splits)

lemma isHexCode_7:
  assumes "length h = 7"
  shows "isHexCode h \<longleftrightarrow> hd h = CHR ''#'' \<and> list_all isHexDigit (tl h)"
  using assms by (cases h) (auto simp: isHexCode_def hexDigits_def)

text \<open>
  C3. When the text of the hex field, trimmed, is a 3-digit or 6-digit hex code with an
  optional leading \<open>#\<close>, the listener sets the three channels to the decoded values and
  clears the error state. Entering \<open>FF00AA\<close> gives the channels 255, 0, 170, and so does
  the shorthand \<open>F0A\<close>.
\<close>

theorem hexInput_valid_code:
  assumes "pageShape st"
  shows "(isHexCode (trim (hexValue st)) \<longrightarrow>
            ranges (hexInput st) = decodeHex (trim (hexValue st)) \<and> \<not> hexError (hexInput st))
    \<and> ranges (userType ''FF00AA'' st) = [255, 0, 170] \<and> \<not> hexError (userType ''FF00AA'' st)
    \<and> ranges (userType ''F0A'' st) = [255, 0, 170] \<and> \<not> hexError (userType ''F0A'' st)"
proof -
  have gen: "ranges (hexInput s) = decodeHex (trim (hexValue s)) \<and> \<not> hexError (hexInput s)"
    if "pageShape s" "isHexCode (trim (hexValue s))" for s
    using that by (simp add: hexInput_accept pageShape_def list_update3 decodeHex_length)
  have t1: "trim ''FF00AA'' = ''FF00AA''" and t2: "trim ''F0A'' = ''F0A''"
    by (simp_all add: trim_def isWhiteSpace_def)
  have c1: "isHexCode ''FF00AA''" and c2: "isHexCode ''F0A''"
    by (simp_all add: isHexCode_def hexDigits_def isHexDigit_def)
  have d1: "decodeHex ''FF00AA'' = [255, 0, 170]" and d2: "decodeHex ''F0A'' = [255, 0, 170]"
    by (simp_all add: decodeHex_def hexDigits_def hexDigitVal_def)
  have s: "pageShape (st\<lparr>hexValue := w\<rparr>)" for w
    using assms by (simp add: pageShape_def)
  from gen [OF s, of "''FF00AA''"] gen [OF s, of "''F0A''"] gen [OF assms]
  show ?thesis
    by (simp add: userType_def t1 t2 c1 c2 d1 d2)
qed

theorem hexInput_valid_code_witness:
  "pageShape (examplePage\<lparr>hexValue := '' #f0a '', hexError := True\<rparr>)
   \<and> isHexCode (trim '' #f0a '')
   \<and> ranges (hexInput (examplePage\<lparr>hexValue := '' #f0a '', hexError := True\<rparr>)) = [255, 0, 170]
   \<and> \<not> hexError (hexInput (examplePage\<lparr>hexValue := '' #f0a '', hexError := True\<rparr>))"
proof -
  let ?st = "examplePage\<lparr>hexValue := '' #f0a '', hexError := True\<rparr>"
  have shape: "pageShape ?st"
    by (simp add: pageShape_def examplePage_def)
  have t: "trim '' #f0a '' = ''#f0a''"
    by (simp add: trim_def isWhiteSpace_def)
  have c: "isHexCode ''#f0a''"
    by (simp add: isHexCode_def hexDigits_def isHexDigit_def)
  have d: "decodeHex ''#f0a'' = [255, 0, 170]"
    by (simp add: decodeHex_def hexDigits_def hexDigitVal_def)
  from hexInput_valid_code [OF shape] shape show ?thesis
    by (simp add: t c d)
qed

text \<open>
  C4. When the text of the hex field, trimmed, holds a character that is neither \<open>#\<close> nor
  a hexadecimal digit, the listener sets the error state and leaves the three channels
  as they are. Entering \<open>GGHHII\<close> sets the error state and leaves the channels.
\<close>

theorem hexInput_invalid_character:
  assumes "c \<in> set (trim (hexValue st))" and "c \<noteq> CHR ''#''" and "\<not> isHexDigit c"
  shows "hexError (hexInput st) \<and> ranges (hexInput st) = ranges st
    \<and> hexInput st = st\<lparr>hexError := True\<rparr>
    \<and> hexError (userType ''GGHHII'' st) \<and> ranges (userType ''GGHHII'' st) = ranges st"
proof -
  from assms have "\<not> isValidHexChar (trim (hexValue st))"
    by (auto simp: isValidHexChar_iff list_all_iff)
  then have a: "hexInput st = st\<lparr>hexError := True\<rparr>"
    by (simp add: hexInput_def)
  have "trim ''GGHHII'' = ''GGHHII''"
    by (simp add: trim_def isWhiteSpace_def)
  moreover have "\<not> isValidHexChar ''GGHHII''"
    by (simp add: isValidHexChar_def)
  ultimately have "userType ''GGHHII'' st = st\<lparr>hexValue := ''GGHHII'', hexError := True\<rparr>"
    by (simp add: userType_def hexInput_def)
  with a show ?thesis by simp
qed

theorem hexInput_invalid_character_witness:
  "CHR ''x'' \<in> set (trim (hexValue (examplePage\<lparr>hexValue := ''12x''\<rparr>)))
   \<and> CHR ''x'' \<noteq> CHR ''#'' \<and> \<not> isHexDigit (CHR ''x'')
   \<and> hexError (hexInput (examplePage\<lparr>hexValue := ''12x''\<rparr>))
   \<and> ranges (hexInput (examplePage\<lparr>hexValue := ''12x''\<rparr>)) = [18, 52, 86]"
proof -
  let ?st = "examplePage\<lparr>hexValue := ''12x''\<rparr>"
  have a: "CHR ''x'' \<in> set (trim (hexValue ?st))"
    by (simp add: trim_def isWhiteSpace_def)
  have b: "CHR ''x'' \<noteq> CHR ''#''" by simp
  have c: "\<not> isHexDigit (CHR ''x'')" by (simp add: isHexDigit_def)
  from hexInput_invalid_character [OF a b c] a b c show ?thesis
    by (simp add: examplePage_def)
qed

text \<open>
  C5. When the text of the hex field, trimmed, has between 2 and 6 characters, all of them
  \<open>#\<close> or hexadecimal digits, and is not a 3-digit or 6-digit hex code, the listener
  clears the error state and leaves the three channels as they are.
\<close>

theorem hexInput_partial:
  assumes "list_all (\<lambda>c. c = CHR ''#'' \<or> isHexDigit c) (trim (hexValue st))"
    and "2 \<le> length (trim (hexValue st))" and "length (trim (hexValue st)) \<le> 6"
    and "\<not> isHexCode (trim (hexValue st))"
  shows "\<not> hexError (hexInput st) \<and> ranges (hexInput st) = ranges st
    \<and> hexInput st = st\<lparr>hexError := False\<rparr>"
  using assms by (simp add: hexInput_reject isValidHexChar_iff)

theorem hexInput_partial_witness:
  "list_all (\<lambda>c. c = CHR ''#'' \<or> isHexDigit c) (trim ''#FF0A'')
   \<and> 2 \<le> length (trim ''#FF0A'') \<and> length (trim ''#FF0A'') \<le> 6
   \<and> \<not> isHexCode (trim ''#FF0A'')
   \<and> \<not> hexError (hexInput (examplePage\<lparr>hexValue := ''#FF0A'', hexError := True\<rparr>))
   \<and> ranges (hexInput (examplePage\<lparr>hexValue := ''#FF0A'', hexError := True\<rparr>)) = [18, 52, 86]"
proof -
  let ?st = "examplePage\<lparr>hexValue := ''#FF0A'', hexError := True\<rparr>"
  have t: "trim ''#FF0A'' = ''#FF0A''"
    by (simp add: trim_def isWhiteSpace_def)
  have a: "list_all (\<lambda>c. c = CHR ''#'' \<or> isHexDigit c) (trim (hexValue ?st))"
    by (simp add: t isHexDigit_def)
  have b: "2 \<le> length (trim (hexValue ?st))" and c: "length (trim (hexValue ?st)) \<le> 6"
    by (simp_all add: t)
  have d: "\<not> isHexCode (trim (hexValue ?st))"
    by (simp add: t isHexCode_def hexDigits_def)
  from hexInput_partial [OF a b c d] a b c d show ?thesis
    by (simp add: examplePage_def)
qed

text \<open>
  C6. When the text of the hex field, trimmed, holds only \<open>#\<close> and hexadecimal digits and
  either has more than 7 characters, or has exactly 7 and is not \<open>#\<close> followed by six
  hexadecimal digits, the listener sets the error state and leaves the three channels as
  they are. Entering \<open>#FFFFFFF\<close> (8 characters) sets the error state.
\<close>

theorem hexInput_too_long:
  assumes "list_all (\<lambda>c. c = CHR ''#'' \<or> isHexDigit c) (trim (hexValue st))"
    and "7 < length (trim (hexValue st))
       \<or> length (trim (hexValue st)) = 7
         \<and> \<not> (hd (trim (hexValue st)) = CHR ''#'' \<and> list_all isHexDigit (tl (trim (hexValue st))))"
  shows "hexError (hexInput st) \<and> ranges (hexInput st) = ranges st
    \<and> hexInput st = st\<lparr>hexError := True\<rparr>
    \<and> hexError (userType ''#FFFFFFF'' st) \<and> ranges (userType ''#FFFFFFF'' st) = ranges st"
proof -
  have gen: "hexInput s = s\<lparr>hexError := True\<rparr>"
    if "isValidHexChar (trim (hexValue s))"
      and "7 < length (trim (hexValue s))
       \<or> length (trim (hexValue s)) = 7
         \<and> \<not> (hd (trim (hexValue s)) = CHR ''#'' \<and> list_all isHexDigit (tl (trim (hexValue s))))"
    for s
  proof -
    from that(2) have n: "\<not> isHexCode (trim (hexValue s))"
      using isHexCode_length [of "trim (hexValue s)"] isHexCode_7 [of "trim (hexValue s)"]
      by auto
    from that show ?thesis
      by (auto simp add: hexInput_reject [OF n])
  qed
  have t: "trim ''#FFFFFFF'' = ''#FFFFFFF''"
    by (simp add: trim_def isWhiteSpace_def)
  have v: "isValidHexChar ''#FFFFFFF''"
    by (simp add: isValidHexChar_def)
  have "userType ''#FFFFFFF'' st = st\<lparr>hexValue := ''#FFFFFFF'', hexError := True\<rparr>"
    using gen [of "st\<lparr>hexValue := ''#FFFFFFF''\<rparr>"] by (simp add: userType_def t v)
  moreover from assms have "hexInput st = st\<lparr>hexError := True\<rparr>"
    by (intro gen) (simp_all add: isValidHexChar_iff)
  ultimately show ?thesis by simp
qed

theorem hexInput_too_long_witness:
  "list_all (\<lambda>c. c = CHR ''#'' \<or> isHexDigit c) (trim ''1234567'')
   \<and> length (trim ''1234567'') = 7 \<and> hd (trim ''1234567'') \<noteq> CHR ''#''
   \<and> hexError (hexInput (examplePage\<lparr>hexValue := ''1234567''\<rparr>))
   \<and> ranges (hexInput (examplePage\<lparr>hexValue := ''1234567''\<rparr>)) = [18, 52, 86]"
proof -
  let ?st = "examplePage\<lparr>hexValue := ''1234567''\<rparr>"
  have t: "trim ''1234567'' = ''1234567''"
    by (simp add: trim_def isWhiteSpace_def)
  have a: "list_all (\<lambda>c. c = CHR ''#'' \<or> isHexDigit c) (trim (hexValue ?st))"
    by (simp add: t isHexDigit_def)
  have b: "7 < length (trim (hexValue ?st))
       \<or> length (trim (hexValue ?st)) = 7
         \<and> \<not> (hd (trim (hexValue ?st)) = CHR ''#''
             \<and> list_all isHexDigit (tl (trim (hexValue ?st))))"
    by (simp add: t)
  from hexInput_too_long [OF a b] a show ?thesis
    by (simp add: examplePage_def t)
qed

section \<open>Reachable states\<close>

lemma toUpperChar_hexDigitChar:
  assumes "d < 16"
  shows "toUpperChar (hexDigitChar d) = upperHexDigit d"
  using digit_cases [OF assms]
  by (elim disjE) (simp_all add: toUpperChar_def hexDigitChar_def upperHexDigit_def)

lemma toUpperCase_toHex:
  assumes "c \<le> 255"
  shows "toUpperCase (toHex c) = [upperHexDigit (c div 16), upperHexDigit (c mod 16)]"
proof -
  from assms have "c div 16 < 16" by simp
  moreover have "c mod 16 < 16" by simp
  ultimately show ?thesis
    by (simp add: toHex_byte [OF assms] toUpperCase_def toUpperChar_hexDigitChar)
qed

lemma toUpperCase_rgbToHex:
  assumes "r \<le> 255" "g \<le> 255" "b \<le> 255"
  shows "toUpperCase (rgbToHex r g b) = canonicalHex r g b"
proof -
  have "toUpperCase (rgbToHex r g b)
      = toUpperChar (CHR ''#'') # toUpperCase (toHex r) @ toUpperCase (toHex g) @ toUpperCase (toHex b)"
    by (simp add: rgbToHex_def toUpperCase_def)
  moreover have "toUpperChar (CHR ''#'') = CHR ''#''"
    by (simp add: toUpperChar_def)
  ultimately show ?thesis
    by (simp add: toUpperCase_toHex assms canonicalHex_def)
qed

lemma hexDigitVal_less:
  assumes "isHexDigit c"
  shows "hexDigitVal c < 16"
proof -
  from assms have "c \<in> set ''abcdefABCDEF0123456789''"
    by (simp only: isHexDigit_def)
  then show ?thesis
    by (simp only: set_simps insert_iff empty_iff) (elim disjE FalseE; simp add: hexDigitVal_def)
qed

lemma hexDigitVal_le:
  assumes "isHexDigit c"
  shows "hexDigitVal c \<le> 15"
  using hexDigitVal_less [OF assms] by simp

lemma decodeHex_inRange:
  assumes "isHexCode h"
  shows "list_all (\<lambda>v. v \<le> 255) (decodeHex h)"
proof -
  have b: "16 * hexDigitVal x + hexDigitVal y \<le> 255" if "isHexDigit x" "isHexDigit y" for x y
    using hexDigitVal_less [OF that(1)] hexDigitVal_less [OF that(2)] by simp
  from assms have d: "list_all isHexDigit (hexDigits h)"
    and l: "length (hexDigits h) = 3 \<or> length (hexDigits h) = 6"
    by (simp_all add: isHexCode_def)
  from l show ?thesis
  proof
    assume l3: "length (hexDigits h) = 3"
    obtain x y z where t: "hexDigits h = [x, y, z]"
      using length3 [OF l3] by blast
    with d show ?thesis
      by (simp add: decodeHex_def hexDigitVal_le)
  next
    assume l6: "length (hexDigits h) = 6"
    obtain a1 a2 a3 a4 a5 a6 where t: "hexDigits h = [a1, a2, a3, a4, a5, a6]"
      using length6 [OF l6] by blast
    with d show ?thesis
      by (simp add: decodeHex_def b)
  qed
qed

lemma randomValue_le:
  assumes "u < 1"
  shows "randomValue u \<le> 255"
proof -
  from assms have "u * 256 < 256" by simp
  then have "\<lfloor>u * 256\<rfloor> < 256" by (simp add: floor_less_iff)
  then show ?thesis by (simp add: randomValue_def nat_le_iff)
qed

lemma accepted_iff: "accepted w = isHexCode (trim w)"
proof (cases "isHexCode (trim w)")
  case True
  then show ?thesis
    by (simp add: accepted_def isHexCode_valid hexToRgb_isHexCode)
next
  case False
  then show ?thesis
    by (simp add: accepted_def hexToRgb_None)
qed

lemma updateColors_settled:
  assumes "pageShape st" "inRange st"
  shows "pageShape (updateColors st) \<and> inRange (updateColors st)
    \<and> hexValue (updateColors st) = canonicalHex (ranges st ! 0) (ranges st ! 1) (ranges st ! 2)"
proof -
  from assms obtain r g b where t: "ranges st = [r, g, b]"
    using length3 [of "ranges st"] by (auto simp: pageShape_def)
  with assms(2) have "r \<le> 255" "g \<le> 255" "b \<le> 255"
    by (simp_all add: inRange_def)
  with assms t show ?thesis
    by (simp add: pageShape_def inRange_def updateColors_hexValue toUpperCase_rgbToHex)
qed

lemma inRange_update:
  assumes "inRange st" "v \<le> 255"
  shows "list_all (\<lambda>v. v \<le> 255) ((ranges st)[i := v])"
  using assms by (auto simp: inRange_def list_all_iff dest: set_update_subset_insert [THEN subsetD])

lemma userSlide_eq:
  "userSlide i v st = updateColors (st\<lparr>ranges := (ranges st)[i := v],
     rangeValues := (rangeValues st)[i := decimal ((ranges st)[i := v] ! i)], hexError := False\<rparr>)"
  by (simp add: userSlide_def sliderInput_def)

lemma randomAllClick_eq:
  assumes "pageShape st"
  shows "randomAllClick rnd st = updateColors (st\<lparr>
     ranges := [randomValue (rnd 0), randomValue (rnd 1), randomValue (rnd 2)],
     rangeValues := [decimal (randomValue (rnd 0)), decimal (randomValue (rnd 1)),
                     decimal (randomValue (rnd 2))],
     hexError := False\<rparr>)"
proof -
  from assms obtain r g b where t: "ranges st = [r, g, b]"
    using length3 [of "ranges st"] by (auto simp: pageShape_def)
  from assms obtain x y z where u: "rangeValues st = [x, y, z]"
    using length3 [of "rangeValues st"] by (auto simp: pageShape_def)
  have "[0..<3] = [0, 1, 2]" by (simp add: upt_rec)
  then show ?thesis
    by (simp add: randomAllClick_def t u Let_def numeral_2_eq_2 [symmetric])
qed

lemma reachable_shape:
  assumes "reachable s st"
  shows "pageShape st \<and> inRange st
    \<and> (s \<longrightarrow> hexValue st = canonicalHex (ranges st ! 0) (ranges st ! 1) (ranges st ! 2))"
  using assms
proof (induction rule: reachable.induct)
  case (load st)
  then show ?case using updateColors_settled [of st] by simp
next
  case (slide s st i v)
  let ?st = "st\<lparr>ranges := (ranges st)[i := v],
     rangeValues := (rangeValues st)[i := decimal ((ranges st)[i := v] ! i)], hexError := False\<rparr>"
  from slide have "pageShape ?st" "inRange ?st"
    using inRange_update [of st v i] by (simp_all add: pageShape_def inRange_def)
  from updateColors_settled [OF this] show ?case
    by (simp add: userSlide_eq)
next
  case (random s st i u)
  let ?st = "st\<lparr>ranges := (ranges st)[i := randomValue u],
     rangeValues := (rangeValues st)[i := decimal (randomValue u)], hexError := False\<rparr>"
  from random have "pageShape ?st" "inRange ?st"
    using inRange_update [of st "randomValue u" i] randomValue_le [of u]
    by (simp_all add: pageShape_def inRange_def)
  from updateColors_settled [OF this] show ?case
    by (simp add: randomClick_def Let_def)
next
  case (randomAll s st rnd)
  let ?st = "st\<lparr>
     ranges := [randomValue (rnd 0), randomValue (rnd 1), randomValue (rnd 2)],
     rangeValues := [decimal (randomValue (rnd 0)), decimal (randomValue (rnd 1)),
                     decimal (randomValue (rnd 2))],
     hexError := False\<rparr>"
  from randomAll have "pageShape ?st" "inRange ?st"
    using randomValue_le [of "rnd 0"] randomValue_le [of "rnd 1"] randomValue_le [of "rnd 2"]
    by (simp_all add: pageShape_def inRange_def)
  from updateColors_settled [OF this] randomAll show ?case
    by (simp add: randomAllClick_eq)
next
  case (type s st w)
  show ?case
  proof (cases "isHexCode (trim w)")
    case True
    let ?d = "decodeHex (trim w)"
    let ?st = "st\<lparr>hexValue := w, hexError := False, ranges := ?d,
       rangeValues := (rangeValues st)[0 := decimal (?d ! 0), 1 := decimal (?d ! 1), 2 := decimal (?d ! 2)]\<rparr>"
    from type True have eq: "userType w st = updateColors ?st"
      by (simp add: userType_def hexInput_accept pageShape_def list_update3 decodeHex_length)
    from type True have "pageShape ?st" "inRange ?st"
      using decodeHex_inRange [OF True]
      by (simp_all add: pageShape_def inRange_def decodeHex_length)
    from updateColors_settled [OF this] show ?thesis
      by (simp add: eq)
  next
    case False
    with type show ?thesis
      by (simp add: userType_def hexInput_reject accepted_iff pageShape_def inRange_def)
  qed
qed


lemma accepted_examples:
  "accepted ''#f0a''" "\<not> accepted ''#F''"
  by (simp_all add: accepted_iff trim_def isWhiteSpace_def isHexCode_def hexDigits_def isHexDigit_def)

lemma ranges_examplePage: "ranges examplePage = [18, 52, 86]"
  by (simp add: examplePage_def)

lemma reachable_examplePage: "reachable True (updateColors examplePage)"
  by (rule reachable.load) (simp_all add: pageShape_def inRange_def examplePage_def)

lemma ranges_after_f0a: "ranges (userType ''#f0a'' (updateColors examplePage)) = [255, 0, 170]"
proof -
  have "trim ''#f0a'' = ''#f0a''"
    by (simp add: trim_def isWhiteSpace_def)
  moreover have "isHexCode ''#f0a''"
    by (simp add: isHexCode_def hexDigits_def isHexDigit_def)
  moreover have "decodeHex ''#f0a'' = [255, 0, 170]"
    by (simp add: decodeHex_def hexDigits_def hexDigitVal_def)
  ultimately show ?thesis
    by (simp add: userType_def hexInput_accept ranges_examplePage)
qed

lemma state_after_partial:
  "userType ''#F'' (updateColors examplePage)
     = (updateColors examplePage)\<lparr>hexValue := ''#F'', hexError := False\<rparr>"
proof -
  have "trim ''#F'' = ''#F''"
    by (simp add: trim_def isWhiteSpace_def)
  moreover have "\<not> isHexCode ''#F''"
    by (simp add: isHexCode_def hexDigits_def)
  moreover have "isValidHexChar ''#F''"
    by (simp add: isValidHexChar_def)
  ultimately show ?thesis
    by (simp add: userType_def hexInput_reject)
qed

lemma reachable_canonical:
  assumes "reachable s st"
  shows "inRange st \<and> (s \<longrightarrow> canonicalState st)"
  using reachable_shape [OF assms] by (simp add: canonicalState_def)

text \<open>
  C2. In every state the page reaches, all three channels are integers in [0,255], the
  sliders delivering values of their range. Every settled state, and so the state after
  each operation that changes the colour (a slider change, a randomize of one channel,
  a randomize of all, an accepted hex entry), has the hex field hold the canonical
  uppercase 6-digit encoding of the channels with its leading \<open>#\<close>. An entry that is not
  accepted leaves the channels in range.
\<close>

theorem reachable_invariant:
  assumes "reachable s st"
  shows "inRange st \<and> (s \<longrightarrow> canonicalState st)
    \<and> (i < 3 \<and> v \<le> 255 \<longrightarrow> canonicalState (userSlide i v st))
    \<and> (i < 3 \<and> 0 \<le> u \<and> u < 1 \<longrightarrow> canonicalState (randomClick i u st))
    \<and> ((\<forall>k. 0 \<le> rnd k \<and> rnd k < 1) \<longrightarrow> canonicalState (randomAllClick rnd st))
    \<and> (accepted w \<longrightarrow> canonicalState (userType w st))
    \<and> inRange (userType w st)"
proof -
  have a: "canonicalState (userSlide i v st)" if "i < 3" "v \<le> 255"
    using reachable_canonical [OF reachable.slide [OF assms that]] by simp
  have b: "canonicalState (randomClick i u st)" if "i < 3" "0 \<le> u" "u < 1"
    using reachable_canonical [OF reachable.random [OF assms that]] by simp
  have c: "canonicalState (randomAllClick rnd st)" if "\<forall>k. 0 \<le> rnd k \<and> rnd k < 1"
    using reachable_canonical [OF reachable.randomAll [OF assms, of rnd]] that by simp
  have d: "inRange (userType w st) \<and> (accepted w \<longrightarrow> canonicalState (userType w st))"
    using reachable_canonical [OF reachable.type [OF assms, of w]] .
  from reachable_canonical [OF assms] a b c d show ?thesis
    by blast
qed

theorem reachable_invariant_witness:
  "reachable True (updateColors examplePage)
   \<and> accepted ''#f0a''
   \<and> ranges (userType ''#f0a'' (updateColors examplePage)) = [255, 0, 170]
   \<and> inRange (userType ''#f0a'' (updateColors examplePage))
   \<and> hexValue (userType ''#f0a'' (updateColors examplePage)) = ''#FF00AA''"
proof -
  from reachable_invariant [OF reachable_examplePage, of _ _ _ _ "''#f0a''"]
  have "canonicalState (userType ''#f0a'' (updateColors examplePage))"
    by (simp add: accepted_examples)
  with reachable_examplePage show ?thesis
    by (simp add: canonicalState_def accepted_examples ranges_after_f0a canonicalHex_def
        upperHexDigit_def)
qed

text \<open>
  C7 as stated does not hold: after the user has typed the partial code \<open>#F\<close> into the
  hex field of the example page, the copy button hands \<open>#F\<close> to the clipboard, which is
  not the canonical encoding \<open>#123456\<close> of the channels.
\<close>

theorem copy_not_canonical:
  "\<not> (\<forall>s st. reachable s st \<longrightarrow>
        copyClick st = canonicalHex (ranges st ! 0) (ranges st ! 1) (ranges st ! 2))"
proof
  assume a: "\<forall>s st. reachable s st \<longrightarrow>
        copyClick st = canonicalHex (ranges st ! 0) (ranges st ! 1) (ranges st ! 2)"
  let ?st = "userType ''#F'' (updateColors examplePage)"
  have "reachable (accepted ''#F'') ?st"
    by (rule reachable.type [OF reachable_examplePage])
  with a have "copyClick ?st = canonicalHex (ranges ?st ! 0) (ranges ?st ! 1) (ranges ?st ! 2)"
    by blast
  then show False
    by (simp add: state_after_partial copyClick_def canonicalHex_def ranges_examplePage)
qed

text \<open>
  C7, amended. The copy button hands the current text of the hex field to the clipboard.
  In every settled state this is the canonical uppercase 6-digit encoding of the
  channels; after an entry that was not accepted it is the text the user typed, as it is.
\<close>

theorem copyClick_text:
  assumes "reachable s st"
  shows "copyClick st = hexValue st
    \<and> (s \<longrightarrow> copyClick st = canonicalHex (ranges st ! 0) (ranges st ! 1) (ranges st ! 2))
    \<and> (\<not> accepted w \<longrightarrow> copyClick (userType w st) = w)"
proof -
  have "copyClick (userType w st) = w" if "\<not> accepted w"
    using that by (simp add: copyClick_def userType_def hexInput_reject accepted_iff)
  with reachable_shape [OF assms] show ?thesis
    by (simp add: copyClick_def)
qed

theorem copyClick_text_witness:
  "reachable True (updateColors examplePage)
   \<and> copyClick (updateColors examplePage) = ''#123456''
   \<and> \<not> accepted ''#F''
   \<and> copyClick (userType ''#F'' (updateColors examplePage)) = ''#F''"
proof -
  have c: "canonicalHex 18 52 86 = ''#123456''"
    by (simp add: canonicalHex_def upperHexDigit_def)
  from copyClick_text [OF reachable_examplePage, of "''#F''"] reachable_examplePage
  show ?thesis
    by (simp add: accepted_examples c ranges_examplePage copyClick_def)
qed

section \<open>Rounding to a double\<close>

lemma expo_lower:
  assumes "0 < x"
  shows "2 powi expo x \<le> x"
proof (cases "1 \<le> x")
  case True
  then have n: "0 < \<lfloor>x\<rfloor>" by simp
  have e: "expo x = bitlen \<lfloor>x\<rfloor> - 1" using True by (simp add: expo_def)
  from n have "1 \<le> bitlen \<lfloor>x\<rfloor>" by (simp add: bitlen_alt_def)
  then have "(2::rat) powi expo x = 2 ^ nat (bitlen \<lfloor>x\<rfloor> - 1)"
    by (simp add: e power_int_nonneg_exp)
  also have "\<dots> = of_int (2 ^ nat (bitlen \<lfloor>x\<rfloor> - 1))" by simp
  also have "\<dots> \<le> of_int \<lfloor>x\<rfloor>"
    using bitlen_bounds [OF n] by (simp only: of_int_le_iff)
  also have "\<dots> \<le> x" by simp
  finally show ?thesis .
next
  case False
  with assms have y: "1 < 1 / x" by simp
  define m where "m = \<lceil>1 / x\<rceil> - 1"
  from y have m: "0 < m" unfolding m_def by linarith
  have e: "expo x = - bitlen m" using False by (simp add: expo_def m_def)
  have "1 / x \<le> of_int (m + 1)" unfolding m_def by simp
  also have "\<dots> \<le> of_int (2 ^ nat (bitlen m))"
    using bitlen_bounds [OF m] by (simp only: of_int_le_iff) simp
  also have "\<dots> = 2 ^ nat (bitlen m)" by simp
  finally have "1 / x \<le> 2 ^ nat (bitlen m)" .
  with assms have "1 / 2 ^ nat (bitlen m) \<le> x"
    by (simp add: field_simps)
  moreover have "(2::rat) powi expo x = 1 / 2 ^ nat (bitlen m)"
    using bitlen_nonneg [of m] by (simp add: e power_int_minus_divide power_int_nonneg_exp)
  ultimately show ?thesis by simp
qed

lemma expo_upper:
  assumes "0 < x"
  shows "x < 2 powi (expo x + 1)"
proof (cases "1 \<le> x")
  case True
  then have n: "0 < \<lfloor>x\<rfloor>" by simp
  have e: "expo x = bitlen \<lfloor>x\<rfloor> - 1" using True by (simp add: expo_def)
  have "x < of_int \<lfloor>x\<rfloor> + 1" by linarith
  also have "\<dots> = of_int (\<lfloor>x\<rfloor> + 1)" by simp
  also have "\<dots> \<le> of_int (2 ^ nat (bitlen \<lfloor>x\<rfloor>))"
    using bitlen_bounds [OF n] by (simp only: of_int_le_iff) simp
  also have "\<dots> = 2 powi (expo x + 1)"
    using bitlen_nonneg [of "\<lfloor>x\<rfloor>"] by (simp add: e power_int_nonneg_exp)
  finally show ?thesis .
next
  case False
  with assms have y: "1 < 1 / x" by simp
  define m where "m = \<lceil>1 / x\<rceil> - 1"
  from y have m: "0 < m" unfolding m_def by linarith
  have e: "expo x = - bitlen m" using False by (simp add: expo_def m_def)
  from m have k: "1 \<le> bitlen m" by (simp add: bitlen_alt_def)
  have "(2::rat) ^ nat (bitlen m - 1) = of_int (2 ^ nat (bitlen m - 1))" by simp
  also have "\<dots> \<le> of_int m"
    using bitlen_bounds [OF m] by (simp only: of_int_le_iff)
  also have "\<dots> < 1 / x" unfolding m_def by linarith
  finally have "2 ^ nat (bitlen m - 1) < 1 / x" .
  with assms have "x < 1 / 2 ^ nat (bitlen m - 1)"
    by (simp add: field_simps)
  moreover have "expo x + 1 = - (bitlen m - 1)" by (simp add: e)
  then have "(2::rat) powi (expo x + 1) = 1 / 2 ^ nat (bitlen m - 1)"
    using k by (simp only: power_int_minus_divide) (simp add: power_int_nonneg_exp)
  ultimately show ?thesis by simp
qed

lemma expo_unique:
  assumes "0 < x" "2 powi e \<le> x" "x < 2 powi (e + 1)"
  shows "expo x = e"
proof -
  have "(2::rat) powi expo x < 2 powi (e + 1)"
    using expo_lower [OF assms(1)] assms(3) by simp
  then have a: "expo x < e + 1"
    by (metis linorder_not_less power_int_increasing leD one_le_numeral)
  have "(2::rat) powi e < 2 powi (expo x + 1)"
    using expo_upper [OF assms(1)] assms(2) by simp
  then have b: "e < expo x + 1"
    by (metis linorder_not_less power_int_increasing leD one_le_numeral)
  from a b show ?thesis by simp
qed

lemma roundEven_close: "\<bar>of_int (roundEven y) - y\<bar> \<le> 1 / 2"
proof -
  have "of_int \<lfloor>y\<rfloor> \<le> y" "y < of_int \<lfloor>y\<rfloor> + 1" by linarith+
  then show ?thesis
    by (auto simp: roundEven_def Let_def abs_le_iff)
qed

lemma toDouble_pos:
  assumes "0 < x"
  shows "toDouble x = of_int (roundEven (x / 2 powi (expo x - 52))) * 2 powi (expo x - 52)"
  using assms by (simp add: toDouble_def Let_def)

lemma toDouble_error:
  assumes "0 < x"
  shows "\<bar>toDouble x - x\<bar> \<le> x / 2 ^ 53"
proof -
  define u :: rat where "u = 2 powi (expo x - 52)"
  have u: "0 < u" by (simp add: u_def)
  have "toDouble x - x = (of_int (roundEven (x / u)) - x / u) * u"
    using u by (simp add: toDouble_pos [OF assms] u_def [symmetric] field_simps)
  then have "\<bar>toDouble x - x\<bar> = \<bar>of_int (roundEven (x / u)) - x / u\<bar> * u"
    using u by (simp add: abs_mult)
  also have "\<dots> \<le> 1 / 2 * u"
    using roundEven_close [of "x / u"] u by (intro mult_right_mono) simp_all
  also have "\<dots> = 2 powi expo x / 2 ^ 53"
    by (simp add: u_def power_int_diff)
  also have "\<dots> \<le> x / 2 ^ 53"
    using expo_lower [OF assms] by (simp add: divide_right_mono)
  finally show ?thesis .
qed

lemma toDouble_at:
  assumes "0 < x" "2 ^ 52 \<le> x * 2 ^ k" "x * 2 ^ k < 2 ^ 53"
  shows "toDouble x = of_int (roundEven (x * 2 ^ k)) / 2 ^ k"
proof -
  have p: "(2::rat) powi (52 - int k) = 2 ^ 52 / 2 ^ k"
    by (simp add: power_int_diff)
  have "2 powi (52 - int k) \<le> x"
    using assms(2) by (simp add: p field_simps)
  moreover have q: "(2::rat) powi (53 - int k) = 2 ^ 53 / 2 ^ k"
    by (simp add: power_int_diff)
  have "x < 2 powi (52 - int k + 1)"
    using assms(3) by (simp add: q field_simps)
  ultimately have "expo x = 52 - int k"
    by (rule expo_unique [OF assms(1)])
  then have "(2::rat) powi (expo x - 52) = 1 / 2 ^ k"
    by (simp add: power_int_minus_divide)
  then show ?thesis
    by (simp add: toDouble_pos [OF assms(1)])
qed



lemma floor_rat_numeral: "\<lfloor>numeral a / numeral b :: rat\<rfloor> = numeral a div numeral b"
  by (metis floor_divide_of_int_eq of_int_numeral)

lemma toDouble_zero: "toDouble 0 = 0"
  by (simp add: toDouble_def)

lemmas toDouble_eval =
  toDouble_at [where k = 45] toDouble_at [where k = 46] toDouble_at [where k = 47]
  toDouble_at [where k = 48] toDouble_at [where k = 49] toDouble_at [where k = 50]
  toDouble_at [where k = 51] toDouble_at [where k = 52] toDouble_at [where k = 53]
  toDouble_at [where k = 54] toDouble_at [where k = 55] toDouble_at [where k = 56]
  toDouble_zero roundEven_def Let_def floor_rat_numeral dadd_def dmul_def

lemma literal_2126: "toDouble (2126 / 10000) = 1914930561557935 / 2 ^ 53"
  by (simp add: toDouble_eval)

lemma literal_7152: "toDouble (7152 / 10000) = 6441948906990757 / 2 ^ 53"
  by (simp add: toDouble_eval)

lemma literal_722: "toDouble (722 / 10000) = 5202558289538397 / 2 ^ 56"
  by (simp add: toDouble_eval)

lemma luminance_eval:
  "luminance r g b =
     toDouble (toDouble (toDouble (of_nat r * (1914930561557935 / 2 ^ 53))
                         + toDouble (of_nat g * (6441948906990757 / 2 ^ 53)))
               + toDouble (of_nat b * (5202558289538397 / 2 ^ 56)))"
  unfolding luminance_def dadd_def dmul_def literal_2126 literal_7152 literal_722 ..

lemma toDouble_near:
  assumes "0 \<le> x" "x \<le> B"
  shows "\<bar>toDouble x - x\<bar> \<le> B / 2 ^ 53"
proof (cases "x = 0")
  case True
  with assms show ?thesis by (simp add: toDouble_zero)
next
  case False
  with assms have "0 < x" by simp
  from toDouble_error [OF this] have "\<bar>toDouble x - x\<bar> \<le> x / 2 ^ 53" .
  also have "\<dots> \<le> B / 2 ^ 53" using assms(2) by (simp add: divide_right_mono)
  finally show ?thesis .
qed

lemma toDouble_nonneg:
  assumes "0 \<le> x"
  shows "0 \<le> toDouble x"
proof (cases "x = 0")
  case True
  then show ?thesis by (simp add: toDouble_zero)
next
  case False
  with assms have x: "0 < x" by simp
  have "x / 2 ^ 53 \<le> x" using x by (simp add: field_simps)
  with toDouble_error [OF x] show ?thesis by linarith
qed

lemma toDouble_between:
  assumes "0 \<le> x" "x \<le> B"
  shows "x - B / 2 ^ 53 \<le> toDouble x" "toDouble x \<le> x + B / 2 ^ 53"
  using toDouble_near [OF assms] by linarith+

lemma luminance_close:
  assumes "r \<le> 255" "g \<le> 255" "b \<le> 255"
  shows "\<bar>luminance r g b - (2126 * of_nat r + 7152 * of_nat g + 722 * of_nat b) / 10000\<bar>
    \<le> 1 / 2 ^ 42"
proof -
  define R G B :: rat where "R = of_nat r" and "G = of_nat g" and "B = of_nat b"
  have R: "0 \<le> R" "R \<le> 255" and G: "0 \<le> G" "G \<le> 255" and B: "0 \<le> B" "B \<le> 255"
    using assms by (simp_all add: R_def G_def B_def)
  define p1 where "p1 = toDouble (R * (1914930561557935 / 2 ^ 53))"
  define p2 where "p2 = toDouble (G * (6441948906990757 / 2 ^ 53))"
  define p3 where "p3 = toDouble (B * (5202558289538397 / 2 ^ 56))"
  define s1 where "s1 = toDouble (p1 + p2)"
  define s2 where "s2 = toDouble (s1 + p3)"
  have lum: "luminance r g b = s2"
    unfolding luminance_def dadd_def dmul_def literal_2126 literal_7152 literal_722
      s2_def s1_def p1_def p2_def p3_def R_def G_def B_def by simp
  have n1: "0 \<le> p1" unfolding p1_def using R by (intro toDouble_nonneg) simp
  have n2: "0 \<le> p2" unfolding p2_def using G by (intro toDouble_nonneg) simp
  have n3: "0 \<le> p3" unfolding p3_def using B by (intro toDouble_nonneg) simp
  have e1: "R * (1914930561557935 / 2 ^ 53) - 64 / 2 ^ 53 \<le> p1"
    "p1 \<le> R * (1914930561557935 / 2 ^ 53) + 64 / 2 ^ 53"
    unfolding p1_def using R by (intro toDouble_between; simp)+
  have e2: "G * (6441948906990757 / 2 ^ 53) - 256 / 2 ^ 53 \<le> p2"
    "p2 \<le> G * (6441948906990757 / 2 ^ 53) + 256 / 2 ^ 53"
    unfolding p2_def using G by (intro toDouble_between; simp)+
  have e3: "B * (5202558289538397 / 2 ^ 56) - 32 / 2 ^ 53 \<le> p3"
    "p3 \<le> B * (5202558289538397 / 2 ^ 56) + 32 / 2 ^ 53"
    unfolding p3_def using B by (intro toDouble_between; simp)+
  have b12: "p1 + p2 \<le> 512"
    using e1 e2 R G by simp
  have n12: "0 \<le> p1 + p2" using n1 n2 by simp
  have e4: "p1 + p2 - 512 / 2 ^ 53 \<le> s1" "s1 \<le> p1 + p2 + 512 / 2 ^ 53"
    unfolding s1_def using n12 b12 by (intro toDouble_between; simp)+
  have ns1: "0 \<le> s1" unfolding s1_def using n12 by (rule toDouble_nonneg)
  have b3: "s1 + p3 \<le> 512"
    using e1 e2 e3 e4 R G B by simp
  have n123: "0 \<le> s1 + p3" using ns1 n3 by simp
  have e5: "s1 + p3 - 512 / 2 ^ 53 \<le> s2" "s2 \<le> s1 + p3 + 512 / 2 ^ 53"
    unfolding s2_def using n123 b3 by (intro toDouble_between; simp)+
  have lo: "(2126 * R + 7152 * G + 722 * B) / 10000 - 1 / 2 ^ 42 \<le> s2"
    using e1(1) e2(1) e3(1) e4(1) e5(1) R G B by (simp add: add_divide_distrib)
  have hi: "s2 \<le> (2126 * R + 7152 * G + 722 * B) / 10000 + 1 / 2 ^ 42"
    using e1(2) e2(2) e3(2) e4(2) e5(2) R G B by (simp add: add_divide_distrib)
  from lo hi have "\<bar>s2 - (2126 * R + 7152 * G + 722 * B) / 10000\<bar> \<le> 1 / 2 ^ 42"
    unfolding abs_diff_le_iff by (rule conjI)
  then show ?thesis
    unfolding lum R_def G_def B_def .
qed

section \<open>Luminance exactly at the threshold\<close>

lemma enum19:
  fixes a :: int
  assumes "- 9 \<le> a" "a \<le> 9"
  shows "a = -9 \<or> a = -8 \<or> a = -7 \<or> a = -6 \<or> a = -5 \<or> a = -4 \<or> a = -3 \<or> a = -2
     \<or> a = -1 \<or> a = 0 \<or> a = 1 \<or> a = 2 \<or> a = 3 \<or> a = 4 \<or> a = 5 \<or> a = 6 \<or> a = 7 \<or> a = 8 \<or> a = 9"
  using assms by arith

lemma enum5:
  fixes c :: int
  assumes "- 2 \<le> c" "c \<le> 2"
  shows "c = -2 \<or> c = -1 \<or> c = 0 \<or> c = 1 \<or> c = 2"
  using assms by arith

lemma lattice_box:
  fixes a c :: int
  assumes "- 140 \<le> 17 * a + 14 * c" "17 * a + 14 * c \<le> 115"
    "- 140 \<le> - 10 * a + 13 * c" "- 10 * a + 13 * c \<le> 115"
    "- 140 \<le> 49 * a - 170 * c" "49 * a - 170 * c \<le> 115"
  shows "(a, c) \<in> set [(-6, -2), (-6, -1), (-5, -2), (-5, -1), (-4, -1), (-3, -1), (-2, -1),
    (-2, 0), (-1, 0), (0, 0), (1, 0), (1, 1), (2, 0), (2, 1), (3, 1), (4, 1), (5, 1), (5, 2)]"
proof -
  from assms have a: "- 9 \<le> a" "a \<le> 9" by linarith+
  from assms have c: "- 2 \<le> c" "c \<le> 2" by linarith+
  from enum19 [OF a] enum5 [OF c] show ?thesis
    using assms by (elim disjE; simp)
qed

lemma boundary_triples:
  assumes "r \<le> 255" "g \<le> 255" "b \<le> 255"
    and eq: "2126 * r + 7152 * g + 722 * b = 1400000"
  shows "(r, g, b) \<in> set boundaryTriples"
proof -
  define x y z where "x = int r - 140" and "y = int g - 140" and "z = int b - 140"
  have "int (2126 * r + 7152 * g + 722 * b) = int 1400000"
    by (simp only: eq)
  then have eq': "1063 * x + 3576 * y + 361 * z = 0"
    by (simp add: x_def y_def z_def)
  define a c where "a = - (234 * z + 689 * x + 2318 * y)"
    and "c = - (180 * z + 530 * x + 1783 * y)"
  have x: "x = 17 * a + 14 * c"
    using eq' unfolding a_def c_def by algebra
  have y: "y = - 10 * a + 13 * c"
    unfolding a_def c_def by simp
  have z: "z = 49 * a - 170 * c"
    using eq' unfolding a_def c_def by algebra
  have "- 140 \<le> x" "x \<le> 115" "- 140 \<le> y" "y \<le> 115" "- 140 \<le> z" "z \<le> 115"
    using assms(1-3) by (simp_all add: x_def y_def z_def)
  then have "(a, c) \<in> set [(-6, -2), (-6, -1), (-5, -2), (-5, -1), (-4, -1), (-3, -1), (-2, -1),
    (-2, 0), (-1, 0), (0, 0), (1, 0), (1, 1), (2, 0), (2, 1), (3, 1), (4, 1), (5, 1), (5, 2)]"
    unfolding x y z by (intro lattice_box)
  then have "(x, y, z) \<in> set [(-130, 34, 46), (-116, 47, -124), (-113, 24, 95), (-99, 37, -75),
    (-82, 27, -26), (-65, 17, 23), (-48, 7, 72), (-34, 20, -98), (-17, 10, -49), (0, 0, 0),
    (17, -10, 49), (31, 3, -121), (34, -20, 98), (48, -7, -72), (65, -17, -23), (82, -27, 26),
    (99, -37, 75), (113, -24, -95)]"
    unfolding x y z by (simp only: set_simps insert_iff empty_iff prod.inject) (elim disjE conjE; simp)
  then show ?thesis
    unfolding x_def y_def z_def boundaryTriples_def
    by (simp only: set_simps insert_iff empty_iff prod.inject) (elim disjE conjE; simp)
qed

lemma boundary_luminance:
  "list_all (\<lambda>(r, g, b). luminance r g b \<le> 140) boundaryTriples"
  unfolding boundaryTriples_def list.pred_inject prod.case
  by (intro conjI TrueI; simp add: luminance_eval toDouble_eval)

section \<open>The colour of the title\<close>

lemma luminance_gt_iff:
  assumes "r \<le> 255" "g \<le> 255" "b \<le> 255"
  shows "140 < luminance r g b \<longleftrightarrow> 1400000 < 2126 * r + 7152 * g + 722 * b"
proof -
  define n where "n = 2126 * r + 7152 * g + 722 * b"
  have L: "(2126 * of_nat r + 7152 * of_nat g + 722 * of_nat b) / 10000 = (of_nat n :: rat) / 10000"
    by (simp add: n_def)
  from luminance_close [OF assms]
  have lo: "of_nat n / 10000 - 1 / 2 ^ 42 \<le> luminance r g b"
    and hi: "luminance r g b \<le> of_nat n / 10000 + 1 / 2 ^ 42"
    unfolding L abs_diff_le_iff by simp_all
  consider "n < 1400000" | "n = 1400000" | "1400000 < n" by linarith
  then have "140 < luminance r g b \<longleftrightarrow> 1400000 < n"
  proof cases
    case 1
    then have "n + 1 \<le> 1400000" by simp
    then have "(of_nat (n + 1) :: rat) \<le> of_nat 1400000" by (simp only: of_nat_le_iff)
    then have "(of_nat n :: rat) \<le> 1399999" by simp
    with hi have "luminance r g b < 140" by simp
    with 1 show ?thesis by simp
  next
    case 2
    with assms have "(r, g, b) \<in> set boundaryTriples"
      by (intro boundary_triples) (simp_all add: n_def)
    with boundary_luminance have "luminance r g b \<le> 140"
      by (auto simp: list_all_iff)
    with 2 show ?thesis by simp
  next
    case 3
    then have "1400000 + 1 \<le> n" by simp
    then have "(of_nat (1400000 + 1) :: rat) \<le> of_nat n" by (simp only: of_nat_le_iff)
    then have "(1400001 :: rat) \<le> of_nat n" by simp
    with lo have "140 < luminance r g b" by simp
    with 3 show ?thesis by simp
  qed
  then show ?thesis by (simp add: n_def)
qed

lemma luminance_white: "140 < luminance 255 255 255"
  by (simp add: luminance_eval toDouble_eval)

lemma luminance_black: "luminance 0 0 0 = 0"
  by (simp add: luminance_eval toDouble_eval)

lemma luminance_grey: "luminance 140 140 140 = 140"
  by (simp add: luminance_eval toDouble_eval)

lemma updateColors_titleColor:
  "titleColor (updateColors st) =
     (if 140 < luminance (ranges st ! 0) (ranges st ! 1) (ranges st ! 2) then ''#333'' else ''#FFF'')"
  by (simp add: updateColors_def Let_def)

text \<open>
  C8. For all channels \<open>r\<close>, \<open>g\<close>, \<open>b\<close> in [0,255] the colour of the title is chosen by the
  strict comparison \<open>r * 0.2126 + g * 0.7152 + b * 0.0722 > 140\<close>: a luminance above 140
  gives the dark colour \<open>#333\<close>, a luminance of 140 or less gives the light colour
  \<open>#FFF\<close>. The comparison of the doubles agrees with the comparison in exact arithmetic.
  White (255, 255, 255) gets the dark colour, black (0, 0, 0) the light one, and the grey
  (140, 140, 140), whose luminance is exactly 140, the light one.
\<close>

theorem title_color_threshold:
  assumes "ranges st = [r, g, b]" and "r \<le> 255" and "g \<le> 255" and "b \<le> 255"
  shows "(140 < luminance r g b \<longrightarrow> titleColor (updateColors st) = ''#333'')
    \<and> (luminance r g b \<le> 140 \<longrightarrow> titleColor (updateColors st) = ''#FFF'')
    \<and> (140 < luminance r g b \<longleftrightarrow> 1400000 < 2126 * r + 7152 * g + 722 * b)
    \<and> (r = 255 \<and> g = 255 \<and> b = 255 \<longrightarrow> titleColor (updateColors st) = ''#333'')
    \<and> (r = 0 \<and> g = 0 \<and> b = 0 \<longrightarrow> titleColor (updateColors st) = ''#FFF'')
    \<and> (r = 140 \<and> g = 140 \<and> b = 140 \<longrightarrow>
          luminance r g b = 140 \<and> titleColor (updateColors st) = ''#FFF'')"
proof -
  have t: "titleColor (updateColors st) = (if 140 < luminance r g b then ''#333'' else ''#FFF'')"
    by (simp add: updateColors_titleColor assms(1))
  show ?thesis
    using luminance_gt_iff [OF assms(2-4)] luminance_white luminance_black luminance_grey
    by (auto simp add: t)
qed

theorem title_color_threshold_witness:
  "ranges (examplePage\<lparr>ranges := [255, 255, 255]\<rparr>) = [255, 255, 255]
   \<and> (255::nat) \<le> 255
   \<and> 140 < luminance 255 255 255
   \<and> titleColor (updateColors (examplePage\<lparr>ranges := [255, 255, 255]\<rparr>)) = ''#333''"
proof -
  have r: "ranges (examplePage\<lparr>ranges := [255, 255, 255]\<rparr>) = [255, 255, 255]"
    by simp
  have b: "(255::nat) \<le> 255" by simp
  from title_color_threshold [OF r b b b] r show ?thesis
    by simp
qed

end
